theory Spec2Isabelle
  imports Main "HOL-Library.Char_ord" "HOL-Library.List_Lexorder" "HOL-Library.Multiset"
    "HOL-Library.Word"
begin

section \<open>The container \<open>std::set<string>\<close>\<close>

text \<open>
  \<open>ScopeSet\<close> keeps its scopes in a \<open>std::set<string>\<close>. The model of such a set is the
  list of its elements in iteration order, from \<open>begin()\<close> to \<open>end()\<close>. The order of
  \<open>std::string\<close> is the lexicographic order of its bytes, which is the order of
  \<open>char list\<close> here. A \<open>std::set\<close> iterates in strictly ascending order: that is its
  representation invariant \<open>set_inv\<close>.
\<close>

type_synonym string_set = "string list"

definition set_inv :: "string_set \<Rightarrow> bool" where
  "set_inv xs = sorted_wrt (<) xs"

text \<open>\<open>s.insert(x)\<close>: the element is put at its place, unless it is already there.\<close>

fun set_insert :: "string \<Rightarrow> string_set \<Rightarrow> string_set" where
  "set_insert x [] = [x]"
| "set_insert x (y # ys) =
     (if x < y then x # y # ys
      else if x = y then y # ys
      else y # set_insert x ys)"

text \<open>\<open>s.find(x) != s.end()\<close>\<close>

definition set_find :: "string \<Rightarrow> string_set \<Rightarrow> bool" where
  "set_find x xs = (x \<in> set xs)"

text \<open>\<open>s.insert(first, last)\<close>: every element of the range is inserted in turn.\<close>

fun set_insert_range :: "string list \<Rightarrow> string_set \<Rightarrow> string_set" where
  "set_insert_range [] s = s"
| "set_insert_range (x # xs) s = set_insert_range xs (set_insert x s)"

section \<open>Canonical scope strings\<close>

text \<open>
  Modelled from the spec: \<open>SLPGetCanonicalString\<close> is declared in
  \<open>tools/slp/SLPStrings.h\<close>, which is not among the sources. The spec gives the canonical
  form of a scope token as case-folded, with leading and trailing whitespace stripped.
  The constructors of \<open>ScopeSet\<close> insert its result as it is, so it returns a string.
\<close>

definition is_space :: "char \<Rightarrow> bool" where
  "is_space c = (c = CHR '' '' \<or> c = CHR 0x09 \<or> c = CHR 0x0A \<or> c = CHR 0x0B
     \<or> c = CHR 0x0C \<or> c = CHR 0x0D)"

definition to_lower :: "char \<Rightarrow> char" where
  "to_lower c =
     (if CHR ''A'' \<le> c \<and> c \<le> CHR ''Z'' then char_of (of_char c + (32::nat)) else c)"

definition strip_spaces :: "string \<Rightarrow> string" where
  "strip_spaces s = rev (dropWhile is_space (rev (dropWhile is_space s)))"

definition SLPGetCanonicalString :: "string \<Rightarrow> string" where
  "SLPGetCanonicalString s = strip_spaces (map to_lower s)"

section \<open>The class \<open>ScopeSet\<close>\<close>

record ScopeSet =
  m_scopes :: string_set

text \<open>\<open>ScopeSet()\<close>\<close>

definition ScopeSet_empty :: ScopeSet where
  "ScopeSet_empty = \<lparr>m_scopes = []\<rparr>"

text \<open>
  \<open>ScopeSet(const set<string>&)\<close> and \<open>ScopeSet(const vector<string>&)\<close>: the same loop
  over the argument, which inserts the canonical string of every element.
\<close>

fun insert_canonical :: "string list \<Rightarrow> string_set \<Rightarrow> string_set" where
  "insert_canonical [] m = m"
| "insert_canonical (s # ss) m = insert_canonical ss (set_insert (SLPGetCanonicalString s) m)"

definition ScopeSet_of_set :: "string_set \<Rightarrow> ScopeSet" where
  "ScopeSet_of_set scopes = \<lparr>m_scopes = insert_canonical scopes []\<rparr>"

definition ScopeSet_of_vector :: "string list \<Rightarrow> ScopeSet" where
  "ScopeSet_of_vector scopes = \<lparr>m_scopes = insert_canonical scopes []\<rparr>"

text \<open>\<open>empty()\<close> and \<open>size()\<close> return \<open>unsigned int\<close>.\<close>

definition empty_ScopeSet :: "ScopeSet \<Rightarrow> 32 word" where
  "empty_ScopeSet this = (if m_scopes this = [] then 1 else 0)"

definition size_ScopeSet :: "ScopeSet \<Rightarrow> 32 word" where
  "size_ScopeSet this = of_nat (length (m_scopes this))"

definition Contains :: "ScopeSet \<Rightarrow> string \<Rightarrow> bool" where
  "Contains this scope = set_find scope (m_scopes this)"

text \<open>
  \<open>Intersects\<close>: \<open>iter1\<close> and \<open>iter2\<close> are the rests of the two sets still to visit.
\<close>

fun Intersects_loop :: "string list \<Rightarrow> string list \<Rightarrow> bool" where
  "Intersects_loop [] ys = False"
| "Intersects_loop (x # xs) [] = False"
| "Intersects_loop (x # xs) (y # ys) =
     (if x = y then True
      else if x < y then Intersects_loop xs (y # ys)
      else Intersects_loop (x # xs) ys)"

definition Intersects :: "ScopeSet \<Rightarrow> ScopeSet \<Rightarrow> bool" where
  "Intersects this other = Intersects_loop (m_scopes this) (m_scopes other)"

text \<open>\<open>IntersectionCount\<close>: the counter \<open>i\<close> is an \<open>unsigned int\<close>, so \<open>i++\<close> wraps.\<close>

fun IntersectionCount_loop :: "string list \<Rightarrow> string list \<Rightarrow> 32 word \<Rightarrow> 32 word" where
  "IntersectionCount_loop [] ys i = i"
| "IntersectionCount_loop (x # xs) [] i = i"
| "IntersectionCount_loop (x # xs) (y # ys) i =
     (if x = y then IntersectionCount_loop xs ys (i + 1)
      else if x < y then IntersectionCount_loop xs (y # ys) i
      else IntersectionCount_loop (x # xs) ys i)"

definition IntersectionCount :: "ScopeSet \<Rightarrow> ScopeSet \<Rightarrow> 32 word" where
  "IntersectionCount this other = IntersectionCount_loop (m_scopes this) (m_scopes other) 0"

text \<open>
  \<open>std::set_intersection\<close> and \<open>std::set_difference\<close> of the C++ standard library, on two
  sorted ranges: the result is the sequence of elements written to the output iterator.
\<close>

fun set_intersection :: "string list \<Rightarrow> string list \<Rightarrow> string list" where
  "set_intersection [] ys = []"
| "set_intersection (x # xs) [] = []"
| "set_intersection (x # xs) (y # ys) =
     (if x < y then set_intersection xs (y # ys)
      else if y < x then set_intersection (x # xs) ys
      else x # set_intersection xs ys)"

fun set_difference :: "string list \<Rightarrow> string list \<Rightarrow> string list" where
  "set_difference [] ys = []"
| "set_difference (x # xs) [] = x # xs"
| "set_difference (x # xs) (y # ys) =
     (if x < y then x # set_difference xs (y # ys)
      else if y < x then set_difference (x # xs) ys
      else set_difference xs ys)"

text \<open>
  \<open>Intersection\<close> and \<open>Difference\<close>: the output goes through an \<open>inserter\<close> into a local
  \<open>set<string>\<close>, from which \<open>ScopeSet(const set<string>&)\<close> builds the result. Both are
  \<open>const\<close> and take a \<open>const\<close> reference: they return the new set and nothing else.
\<close>

definition Intersection :: "ScopeSet \<Rightarrow> ScopeSet \<Rightarrow> ScopeSet" where
  "Intersection this other =
     ScopeSet_of_set (set_insert_range (set_intersection (m_scopes this) (m_scopes other)) [])"

definition Difference :: "ScopeSet \<Rightarrow> ScopeSet \<Rightarrow> ScopeSet" where
  "Difference this other =
     ScopeSet_of_set (set_insert_range (set_difference (m_scopes this) (m_scopes other)) [])"

text \<open>
  \<open>DifferenceUpdate\<close> erases from \<open>m_scopes\<close> while it iterates, and reads \<open>other\<close> through a
  reference while it changes \<open>*this\<close>: whether the two are one object matters. Objects live
  at addresses in a heap, and the method takes the addresses of \<open>*this\<close> and of \<open>other\<close>.
\<close>

type_synonym addr = nat

type_synonym heap = "addr \<Rightarrow> ScopeSet"

text \<open>What a call does: it returns, or its behaviour is undefined.\<close>

datatype 'a outcome = UndefinedBehaviour | Returns 'a

text \<open>
  \<open>iter1\<close> splits \<open>m_scopes\<close> in the elements before it, \<open>before\<close>, and the elements from it
  on; \<open>m_scopes.erase(iter1++)\<close> moves \<open>iter1\<close> to the next element and removes the one it was
  at, which leaves the elements before and after in place: erasing from a \<open>std::set\<close>
  invalidates the iterators to the erased element and no other. When \<open>other\<close> is \<open>*this\<close>,
  marked by \<open>same\<close>, \<open>iter2\<close> walks \<open>m_scopes\<close> too; a set holds no element twice, so
  \<open>*iter1 == *iter2\<close> means that both are at one element, \<open>erase\<close> invalidates \<open>iter2\<close>, and
  the \<open>iter2++\<close> that follows is undefined. The loop returns the final \<open>m_scopes\<close> and the
  local set \<open>difference\<close>.
\<close>

fun DifferenceUpdate_loop ::
  "bool \<Rightarrow> string list \<Rightarrow> string list \<Rightarrow> string list \<Rightarrow> string_set
     \<Rightarrow> (string_set \<times> string_set) outcome" where
  "DifferenceUpdate_loop same before [] ys difference = Returns (before, difference)"
| "DifferenceUpdate_loop same before (x # xs) [] difference =
     Returns (before @ x # xs, difference)"
| "DifferenceUpdate_loop same before (x # xs) (y # ys) difference =
     (if x = y then
        (if same then UndefinedBehaviour
         else DifferenceUpdate_loop same before xs ys (set_insert x difference))
      else if x < y then DifferenceUpdate_loop same (before @ [x]) xs (y # ys) difference
      else DifferenceUpdate_loop same before (x # xs) ys difference)"

text \<open>The method returns the heap, with the object at \<open>this\<close> changed, and the returned set.\<close>

definition DifferenceUpdate :: "heap \<Rightarrow> addr \<Rightarrow> addr \<Rightarrow> (heap \<times> ScopeSet) outcome" where
  "DifferenceUpdate h this other =
     (case DifferenceUpdate_loop (this = other) [] (m_scopes (h this)) (m_scopes (h other)) [] of
        UndefinedBehaviour \<Rightarrow> UndefinedBehaviour
      | Returns (scopes, difference) \<Rightarrow>
          Returns (h(this := (h this)\<lparr>m_scopes := scopes\<rparr>), ScopeSet_of_set difference))"

definition Update :: "ScopeSet \<Rightarrow> ScopeSet \<Rightarrow> ScopeSet" where
  "Update this other = this\<lparr>m_scopes := set_insert_range (m_scopes other) (m_scopes this)\<rparr>"

text \<open>\<open>operator==\<close> compares the two \<open>std::set\<close>s: same elements in the same order.\<close>

definition ScopeSet_eq :: "ScopeSet \<Rightarrow> ScopeSet \<Rightarrow> bool" where
  "ScopeSet_eq this other = (m_scopes this = m_scopes other)"

text \<open>
  The invariant of a \<open>ScopeSet\<close>: every scope it holds is canonical, in a well-formed
  \<open>std::set\<close>. Every constructor establishes it and every method keeps it.
\<close>

definition ScopeSet_inv :: "ScopeSet \<Rightarrow> bool" where
  "ScopeSet_inv s =
     (set_inv (m_scopes s) \<and> list_all (\<lambda>t. SLPGetCanonicalString t = t) (m_scopes s))"

section \<open>The wire codec\<close>

text \<open>
  Modelled from the spec: \<open>ScopeSet(const string&)\<close> and \<open>AsEscapedString\<close> are only
  declared in \<open>ScopeSet.h\<close>; their bodies are not among the sources. The spec's \<open>Encode\<close>
  joins the tokens with commas and puts the escape character, a backslash, before every
  comma and every backslash of a token. The spec's \<open>Decode\<close> splits the text at the commas
  that are not escaped, unescapes each token, canonicalizes it and inserts it; it fails on
  an escape character that nothing follows, and on a token whose canonical form is empty.
  The spec does not say which tokens the empty text has. It has none here: it is decoded
  as the empty set, whose encoding it is.
\<close>

datatype error = InvalidScopeToken | MalformedEscapeSequence

abbreviation delimiter :: char where
  "delimiter \<equiv> CHR '',''"

abbreviation escape_character :: char where
  "escape_character \<equiv> CHR 0x5C"

fun escape_token :: "string \<Rightarrow> string" where
  "escape_token [] = []"
| "escape_token (c # cs) =
     (if c = delimiter \<or> c = escape_character then escape_character # c # escape_token cs
      else c # escape_token cs)"

fun join_tokens :: "string list \<Rightarrow> string" where
  "join_tokens [] = []"
| "join_tokens [t] = t"
| "join_tokens (t # u # ts) = t @ delimiter # join_tokens (u # ts)"

definition AsEscapedString :: "ScopeSet \<Rightarrow> string" where
  "AsEscapedString this = join_tokens (map escape_token (m_scopes this))"

text \<open>
  Splitting reads the text once. \<open>escaped\<close> says that the character before was an escape
  character that is still waiting for the character it escapes; \<open>token\<close> is the token read
  so far, with its escape characters.
\<close>

fun split_escaped :: "bool \<Rightarrow> string \<Rightarrow> string \<Rightarrow> string list" where
  "split_escaped escaped token [] = [token]"
| "split_escaped escaped token (c # cs) =
     (if escaped then split_escaped False (token @ [c]) cs
      else if c = escape_character then split_escaped True (token @ [c]) cs
      else if c = delimiter then token # split_escaped False [] cs
      else split_escaped False (token @ [c]) cs)"

fun unescape_token :: "bool \<Rightarrow> string \<Rightarrow> error + string" where
  "unescape_token escaped [] = (if escaped then Inl MalformedEscapeSequence else Inr [])"
| "unescape_token escaped (c # cs) =
     (if \<not> escaped \<and> c = escape_character then unescape_token True cs
      else (case unescape_token False cs of Inl e \<Rightarrow> Inl e | Inr t \<Rightarrow> Inr (c # t)))"

fun decode_tokens :: "string list \<Rightarrow> string_set \<Rightarrow> error + string_set" where
  "decode_tokens [] m = Inr m"
| "decode_tokens (r # rs) m =
     (case unescape_token False r of
        Inl e \<Rightarrow> Inl e
      | Inr t \<Rightarrow>
          if SLPGetCanonicalString t = [] then Inl InvalidScopeToken
          else decode_tokens rs (set_insert (SLPGetCanonicalString t) m))"

text \<open>The tokens of a text, as it is split: the empty text has none.\<close>

definition raw_tokens :: "string \<Rightarrow> string list" where
  "raw_tokens scopes = (if scopes = [] then [] else split_escaped False [] scopes)"

definition ScopeSet_of_string :: "string \<Rightarrow> error + ScopeSet" where
  "ScopeSet_of_string scopes =
     (case decode_tokens (raw_tokens scopes) [] of
        Inl e \<Rightarrow> Inl e
      | Inr m \<Rightarrow> Inr \<lparr>m_scopes = m\<rparr>)"

text \<open>
  The scope sets the spec calls valid: the invariant of the class, and no empty scope.
\<close>

definition valid_ScopeSet :: "ScopeSet \<Rightarrow> bool" where
  "valid_ScopeSet s = (ScopeSet_inv s \<and> list_all (\<lambda>t. t \<noteq> []) (m_scopes s))"

section \<open>Facts about \<open>std::set<string>\<close>\<close>

lemma set_inv_Nil: "set_inv []"
  by (simp add: set_inv_def)

lemma set_set_insert: "set (set_insert x xs) = insert x (set xs)"
  by (induction xs) auto

lemma sorted_set_insert: "sorted_wrt (<) xs \<Longrightarrow> sorted_wrt (<) (set_insert x xs)"
  by (induction xs) (auto simp: set_set_insert)

lemma set_inv_set_insert: "set_inv xs \<Longrightarrow> set_inv (set_insert x xs)"
  by (simp add: set_inv_def sorted_set_insert)

lemma set_set_insert_range: "set (set_insert_range xs s) = set xs \<union> set s"
  by (induction xs arbitrary: s) (auto simp: set_set_insert)

lemma set_inv_set_insert_range: "set_inv s \<Longrightarrow> set_inv (set_insert_range xs s)"
  by (induction xs arbitrary: s) (auto simp: set_inv_set_insert)

text \<open>Two well-formed sets with the same elements are the same sequence.\<close>

lemma set_inv_unique: "set_inv xs \<Longrightarrow> set_inv ys \<Longrightarrow> set xs = set ys \<Longrightarrow> xs = ys"
  unfolding set_inv_def by (rule strict_sorted_equal) auto

lemma set_insert_range_id: "set_inv xs \<Longrightarrow> set_insert_range xs [] = xs"
  by (rule set_inv_unique)
    (auto simp: set_inv_set_insert_range set_inv_Nil set_set_insert_range)

section \<open>Facts about the canonical form\<close>

lemma of_char_to_lower:
  "(of_char (to_lower c) :: nat) =
     (if 65 \<le> (of_char c :: nat) \<and> (of_char c :: nat) \<le> 90 then of_char c + 32
      else of_char c)"
  by (simp add: to_lower_def less_eq_char_def)

lemma is_space_iff: "is_space c \<longleftrightarrow> (of_char c :: nat) \<in> {32, 9, 10, 11, 12, 13}"
  by (simp add: is_space_def of_char_eq_iff [where ?'a = nat, symmetric])

lemma is_space_to_lower: "is_space (to_lower c) = is_space c"
  by (simp add: is_space_iff of_char_to_lower)

lemma to_lower_idem: "to_lower (to_lower c) = to_lower c"
proof -
  have "(of_char (to_lower (to_lower c)) :: nat) = of_char (to_lower c)"
    by (simp add: of_char_to_lower)
  then show ?thesis by (simp only: of_char_eq_iff)
qed

lemma dropWhile_map_to_lower:
  "dropWhile is_space (map to_lower s) = map to_lower (dropWhile is_space s)"
  by (induction s) (auto simp: is_space_to_lower)

lemma strip_spaces_map_to_lower:
  "strip_spaces (map to_lower s) = map to_lower (strip_spaces s)"
  by (simp add: strip_spaces_def dropWhile_map_to_lower rev_map)

lemma dropWhile_stripped:
  assumes "t = [] \<or> \<not> P (hd t)"
  shows "dropWhile P (rev (dropWhile P (rev t))) = rev (dropWhile P (rev t))"
proof (cases "dropWhile P (rev t) = []")
  case True
  then have "rev (dropWhile P (rev t)) = []" by (simp only: rev.simps)
  then show ?thesis by (simp only: dropWhile.simps)
next
  case False
  have "t = rev (dropWhile P (rev t)) @ rev (takeWhile P (rev t))"
    by (metis rev_append rev_rev_ident takeWhile_dropWhile_id)
  with False have "hd (rev (dropWhile P (rev t))) = hd t"
    by (metis hd_append2 rev_is_Nil_conv)
  moreover from False have "t \<noteq> []" by auto
  ultimately show ?thesis
    using assms False by (simp add: dropWhile_eq_self_iff)
qed

lemma strip_spaces_idem: "strip_spaces (strip_spaces s) = strip_spaces s"
proof -
  let ?t = "dropWhile is_space s"
  have "?t = [] \<or> \<not> is_space (hd ?t)"
    using hd_dropWhile [of is_space s] by blast
  then have "dropWhile is_space (rev (dropWhile is_space (rev ?t)))
      = rev (dropWhile is_space (rev ?t))"
    by (rule dropWhile_stripped)
  then show ?thesis
    by (simp add: strip_spaces_def)
qed

lemma SLPGetCanonicalString_idem:
  "SLPGetCanonicalString (SLPGetCanonicalString s) = SLPGetCanonicalString s"
proof -
  have "map to_lower (map to_lower t) = map to_lower t" for t
    by (simp add: to_lower_idem)
  then show ?thesis
    by (simp only: SLPGetCanonicalString_def strip_spaces_map_to_lower strip_spaces_idem)
qed

section \<open>Facts about the constructors\<close>

lemma set_insert_canonical:
  "set (insert_canonical ss m) = SLPGetCanonicalString ` set ss \<union> set m"
  by (induction ss arbitrary: m) (auto simp: set_set_insert)

lemma set_inv_insert_canonical: "set_inv m \<Longrightarrow> set_inv (insert_canonical ss m)"
  by (induction ss arbitrary: m) (auto simp: set_inv_set_insert)

text \<open>Building a \<open>ScopeSet\<close> from a set of canonical scopes keeps the set as it is.\<close>

lemma insert_canonical_id:
  "set_inv xs \<Longrightarrow> list_all (\<lambda>t. SLPGetCanonicalString t = t) xs \<Longrightarrow>
     insert_canonical xs [] = xs"
  by (rule set_inv_unique)
    (auto simp: set_inv_insert_canonical set_inv_Nil set_insert_canonical list_all_iff)

lemma ScopeSet_inv_of_vector: "ScopeSet_inv (ScopeSet_of_vector scopes)"
  by (auto simp: ScopeSet_inv_def ScopeSet_of_vector_def set_inv_insert_canonical set_inv_Nil
      list_all_iff set_insert_canonical SLPGetCanonicalString_idem)

lemma ScopeSet_inv_of_set: "ScopeSet_inv (ScopeSet_of_set scopes)"
  by (auto simp: ScopeSet_inv_def ScopeSet_of_set_def set_inv_insert_canonical set_inv_Nil
      list_all_iff set_insert_canonical SLPGetCanonicalString_idem)

lemma ScopeSet_inv_empty: "ScopeSet_inv ScopeSet_empty"
  by (simp add: ScopeSet_inv_def ScopeSet_empty_def set_inv_Nil)

section \<open>Intersects\<close>

lemma Intersects_loop_Nil2: "Intersects_loop xs [] = False"
  by (cases xs) auto

lemma Intersects_loop_commute: "Intersects_loop xs ys = Intersects_loop ys xs"
  by (induction xs ys rule: Intersects_loop.induct) (auto simp: Intersects_loop_Nil2)

lemma Intersects_loop_iff:
  "sorted_wrt (<) xs \<Longrightarrow> sorted_wrt (<) ys \<Longrightarrow>
     Intersects_loop xs ys \<longleftrightarrow> set xs \<inter> set ys \<noteq> {}"
  by (induction xs ys rule: Intersects_loop.induct) auto

text \<open>
  C1. For scope sets \<open>A\<close> and \<open>B\<close>, \<open>A.Intersects(B)\<close> is true exactly when some token is in
  both; \<open>Intersects\<close> is commutative, and no set intersects the empty set. The loop returns
  true on equal tokens, moves the iterator at the smaller token otherwise, and returns false
  when one of the two sets is exhausted.
\<close>

theorem Intersects_correct:
  assumes "set_inv (m_scopes A)" and "set_inv (m_scopes B)"
  shows "(Intersects A B \<longleftrightarrow> (\<exists>t. t \<in> set (m_scopes A) \<and> t \<in> set (m_scopes B)))
    \<and> Intersects A B = Intersects B A
    \<and> Intersects A ScopeSet_empty = False
    \<and> Intersects ScopeSet_empty A = False
    \<and> (\<forall>x xs ys. Intersects_loop (x # xs) (x # ys) = True)
    \<and> (\<forall>x xs y ys. x < y \<longrightarrow> Intersects_loop (x # xs) (y # ys) = Intersects_loop xs (y # ys))
    \<and> (\<forall>x xs y ys. y < x \<longrightarrow> Intersects_loop (x # xs) (y # ys) = Intersects_loop (x # xs) ys)
    \<and> (\<forall>xs. Intersects_loop xs [] = False) \<and> (\<forall>ys. Intersects_loop [] ys = False)"
proof -
  have "Intersects A B \<longleftrightarrow> set (m_scopes A) \<inter> set (m_scopes B) \<noteq> {}"
    using assms by (simp add: Intersects_def set_inv_def Intersects_loop_iff)
  then have "Intersects A B \<longleftrightarrow> (\<exists>t. t \<in> set (m_scopes A) \<and> t \<in> set (m_scopes B))"
    by blast
  moreover have "Intersects A B = Intersects B A"
    unfolding Intersects_def by (rule Intersects_loop_commute)
  moreover have "Intersects A ScopeSet_empty = False"
    by (simp add: Intersects_def ScopeSet_empty_def Intersects_loop_Nil2)
  moreover have "Intersects ScopeSet_empty A = False"
    by (simp add: Intersects_def ScopeSet_empty_def)
  moreover have "\<forall>x xs y ys. y < x \<longrightarrow>
      Intersects_loop (x # xs) (y # ys) = Intersects_loop (x # xs) ys"
    by auto
  ultimately show ?thesis
    by (simp add: Intersects_loop_Nil2)
qed

theorem Intersects_correct_witness:
  "set_inv (m_scopes \<lparr>m_scopes = [''default'', ''east-wing'']\<rparr>)
   \<and> set_inv (m_scopes \<lparr>m_scopes = [''east-wing'', ''west-wing'']\<rparr>)
   \<and> Intersects \<lparr>m_scopes = [''default'', ''east-wing'']\<rparr>
       \<lparr>m_scopes = [''east-wing'', ''west-wing'']\<rparr>
   \<and> Intersects \<lparr>m_scopes = [''east-wing'', ''west-wing'']\<rparr>
       \<lparr>m_scopes = [''default'', ''east-wing'']\<rparr>
   \<and> ''east-wing'' \<in> set (m_scopes \<lparr>m_scopes = [''default'', ''east-wing'']\<rparr>)
   \<and> ''east-wing'' \<in> set (m_scopes \<lparr>m_scopes = [''east-wing'', ''west-wing'']\<rparr>)"
proof -
  have a: "set_inv (m_scopes \<lparr>m_scopes = [''default'', ''east-wing'']\<rparr>)"
    by (simp add: set_inv_def)
  have b: "set_inv (m_scopes \<lparr>m_scopes = [''east-wing'', ''west-wing'']\<rparr>)"
    by (simp add: set_inv_def)
  have "Intersects \<lparr>m_scopes = [''default'', ''east-wing'']\<rparr>
       \<lparr>m_scopes = [''east-wing'', ''west-wing'']\<rparr>"
    by (simp add: Intersects_def)
  with Intersects_correct [OF a b] a b show ?thesis
    by simp
qed

section \<open>The merge loops\<close>

text \<open>
  The loops of \<open>IntersectionCount\<close>, \<open>Intersects\<close> and \<open>DifferenceUpdate\<close> walk the two sets
  as \<open>std::set_intersection\<close> and \<open>std::set_difference\<close> do; their results are stated
  through these two.
\<close>

lemma set_intersection_subset: "set (set_intersection xs ys) \<subseteq> set xs"
  by (induction xs ys rule: set_intersection.induct) auto

lemma set_difference_subset: "set (set_difference xs ys) \<subseteq> set xs"
  by (induction xs ys rule: set_difference.induct) auto

lemma set_set_intersection:
  "sorted_wrt (<) xs \<Longrightarrow> sorted_wrt (<) ys \<Longrightarrow>
     set (set_intersection xs ys) = set xs \<inter> set ys"
  by (induction xs ys rule: set_intersection.induct) auto

lemma set_set_difference:
  "sorted_wrt (<) xs \<Longrightarrow> sorted_wrt (<) ys \<Longrightarrow>
     set (set_difference xs ys) = set xs - set ys"
  by (induction xs ys rule: set_difference.induct) auto

lemma sorted_set_intersection:
  "sorted_wrt (<) xs \<Longrightarrow> sorted_wrt (<) (set_intersection xs ys)"
  by (induction xs ys rule: set_intersection.induct)
    (auto dest: subsetD [OF set_intersection_subset])

lemma sorted_set_difference:
  "sorted_wrt (<) xs \<Longrightarrow> sorted_wrt (<) (set_difference xs ys)"
  by (induction xs ys rule: set_difference.induct)
    (auto dest: subsetD [OF set_difference_subset])

lemma IntersectionCount_loop_length:
  "IntersectionCount_loop xs ys i = i + of_nat (length (set_intersection xs ys))"
  by (induction xs ys i rule: IntersectionCount_loop.induct) auto

lemma Intersects_loop_set_intersection:
  "Intersects_loop xs ys \<longleftrightarrow> set_intersection xs ys \<noteq> []"
  by (induction xs ys rule: Intersects_loop.induct) auto

lemma DifferenceUpdate_loop_distinct:
  "\<not> same \<Longrightarrow> DifferenceUpdate_loop same before xs ys difference =
     Returns (before @ set_difference xs ys,
       set_insert_range (set_intersection xs ys) difference)"
  by (induction same before xs ys difference rule: DifferenceUpdate_loop.induct) auto

lemma DifferenceUpdate_loop_eq:
  "DifferenceUpdate_loop False before xs ys difference =
     Returns (before @ set_difference xs ys,
       set_insert_range (set_intersection xs ys) difference)"
  by (simp add: DifferenceUpdate_loop_distinct)


lemma length_set_intersection:
  "sorted_wrt (<) xs \<Longrightarrow> sorted_wrt (<) ys \<Longrightarrow>
     length (set_intersection xs ys) = card (set xs \<inter> set ys)"
proof -
  assume xs: "sorted_wrt (<) xs" and ys: "sorted_wrt (<) ys"
  from xs have "distinct (set_intersection xs ys)"
    using sorted_set_intersection [of xs ys] by (simp add: strict_sorted_iff)
  then have "length (set_intersection xs ys) = card (set (set_intersection xs ys))"
    by (simp add: distinct_card)
  with xs ys show ?thesis by (simp add: set_set_intersection)
qed

lemma set_intersection_self: "set_intersection xs xs = xs"
  by (induction xs) auto

lemma Intersection_eq:
  assumes "ScopeSet_inv A"
  shows "Intersection A B = \<lparr>m_scopes = set_intersection (m_scopes A) (m_scopes B)\<rparr>"
proof -
  let ?zs = "set_intersection (m_scopes A) (m_scopes B)"
  from assms have inv: "set_inv ?zs"
    by (simp add: ScopeSet_inv_def set_inv_def sorted_set_intersection)
  from assms have "list_all (\<lambda>t. SLPGetCanonicalString t = t) ?zs"
    using set_intersection_subset [of "m_scopes A" "m_scopes B"]
    by (auto simp: ScopeSet_inv_def list_all_iff)
  with inv show ?thesis
    by (simp add: Intersection_def ScopeSet_of_set_def set_insert_range_id insert_canonical_id)
qed

lemma Difference_eq:
  assumes "ScopeSet_inv A"
  shows "Difference A B = \<lparr>m_scopes = set_difference (m_scopes A) (m_scopes B)\<rparr>"
proof -
  let ?zs = "set_difference (m_scopes A) (m_scopes B)"
  from assms have inv: "set_inv ?zs"
    by (simp add: ScopeSet_inv_def set_inv_def sorted_set_difference)
  from assms have "list_all (\<lambda>t. SLPGetCanonicalString t = t) ?zs"
    using set_difference_subset [of "m_scopes A" "m_scopes B"]
    by (auto simp: ScopeSet_inv_def list_all_iff)
  with inv show ?thesis
    by (simp add: Difference_def ScopeSet_of_set_def set_insert_range_id insert_canonical_id)
qed

section \<open>IntersectionCount\<close>

text \<open>
  C6. For scope sets \<open>A\<close> and \<open>B\<close>, \<open>A.IntersectionCount(B)\<close> is the number of tokens that are in
  both, as an \<open>unsigned int\<close>: it is that number whenever the number fits in 32 bits. And
  \<open>A.IntersectionCount(A) == A.size()\<close>.
\<close>

theorem IntersectionCount_correct:
  assumes "set_inv (m_scopes A)" and "set_inv (m_scopes B)"
  shows "IntersectionCount A B = of_nat (card (set (m_scopes A) \<inter> set (m_scopes B)))
    \<and> (card (set (m_scopes A) \<inter> set (m_scopes B)) < 2 ^ 32 \<longrightarrow>
         unat (IntersectionCount A B) = card (set (m_scopes A) \<inter> set (m_scopes B)))
    \<and> IntersectionCount A A = size_ScopeSet A"
proof -
  have count: "IntersectionCount A B = of_nat (card (set (m_scopes A) \<inter> set (m_scopes B)))"
    using assms
    by (simp add: IntersectionCount_def IntersectionCount_loop_length set_inv_def
        length_set_intersection)
  have "unat (IntersectionCount A B) = card (set (m_scopes A) \<inter> set (m_scopes B))"
    if "card (set (m_scopes A) \<inter> set (m_scopes B)) < 2 ^ 32"
    using that by (simp add: count unat_of_nat)
  moreover have "IntersectionCount A A = size_ScopeSet A"
    by (simp add: IntersectionCount_def IntersectionCount_loop_length set_intersection_self
        size_ScopeSet_def)
  ultimately show ?thesis
    using count by blast
qed

theorem IntersectionCount_correct_witness:
  "set_inv (m_scopes \<lparr>m_scopes = [''a'', ''b'', ''c'']\<rparr>)
   \<and> set_inv (m_scopes \<lparr>m_scopes = [''b'', ''c'', ''d'']\<rparr>)
   \<and> card (set (m_scopes \<lparr>m_scopes = [''a'', ''b'', ''c'']\<rparr>)
        \<inter> set (m_scopes \<lparr>m_scopes = [''b'', ''c'', ''d'']\<rparr>)) < (2::nat) ^ 32
   \<and> unat (IntersectionCount \<lparr>m_scopes = [''a'', ''b'', ''c'']\<rparr>
        \<lparr>m_scopes = [''b'', ''c'', ''d'']\<rparr>) = 2
   \<and> IntersectionCount \<lparr>m_scopes = [''a'', ''b'', ''c'']\<rparr> \<lparr>m_scopes = [''a'', ''b'', ''c'']\<rparr>
       = size_ScopeSet \<lparr>m_scopes = [''a'', ''b'', ''c'']\<rparr>"
proof -
  have a: "set_inv (m_scopes \<lparr>m_scopes = [''a'', ''b'', ''c'']\<rparr>)"
    by (simp add: set_inv_def)
  have b: "set_inv (m_scopes \<lparr>m_scopes = [''b'', ''c'', ''d'']\<rparr>)"
    by (simp add: set_inv_def)
  have c: "card (set (m_scopes \<lparr>m_scopes = [''a'', ''b'', ''c'']\<rparr>)
        \<inter> set (m_scopes \<lparr>m_scopes = [''b'', ''c'', ''d'']\<rparr>)) = 2"
    by simp
  from IntersectionCount_correct [OF a b] a b c show ?thesis
    by simp
qed

section \<open>Intersection and Difference\<close>

text \<open>
  C8. For scope sets \<open>A\<close> and \<open>B\<close>, \<open>A.Intersection(B)\<close> holds exactly the tokens that are in both
  and \<open>A.Difference(B)\<close> exactly the tokens of \<open>A\<close> that are not in \<open>B\<close>; both results are
  scope sets again. Both methods are \<open>const\<close> with a \<open>const\<close> argument: they are functions of
  the two operands to the new set, and the operands stay as they are.
\<close>

theorem Intersection_Difference_correct:
  assumes "ScopeSet_inv A" and "ScopeSet_inv B"
  shows "set (m_scopes (Intersection A B)) = set (m_scopes A) \<inter> set (m_scopes B)
    \<and> set (m_scopes (Difference A B)) = set (m_scopes A) - set (m_scopes B)
    \<and> ScopeSet_inv (Intersection A B) \<and> ScopeSet_inv (Difference A B)"
proof -
  from assms have sorted: "sorted_wrt (<) (m_scopes A)" "sorted_wrt (<) (m_scopes B)"
    by (simp_all add: ScopeSet_inv_def set_inv_def)
  have "set (m_scopes (Intersection A B)) = set (m_scopes A) \<inter> set (m_scopes B)"
    using sorted by (simp add: Intersection_eq [OF assms(1)] set_set_intersection)
  moreover have "set (m_scopes (Difference A B)) = set (m_scopes A) - set (m_scopes B)"
    using sorted by (simp add: Difference_eq [OF assms(1)] set_set_difference)
  moreover have "ScopeSet_inv (Intersection A B)"
    unfolding Intersection_def by (rule ScopeSet_inv_of_set)
  moreover have "ScopeSet_inv (Difference A B)"
    unfolding Difference_def by (rule ScopeSet_inv_of_set)
  ultimately show ?thesis by blast
qed

theorem Intersection_Difference_correct_witness:
  "ScopeSet_inv (ScopeSet_of_vector [''Default'', ''east-wing ''])
   \<and> ScopeSet_inv (ScopeSet_of_vector [''East-Wing'', ''west-wing''])
   \<and> m_scopes (Intersection (ScopeSet_of_vector [''Default'', ''east-wing ''])
        (ScopeSet_of_vector [''East-Wing'', ''west-wing''])) = [''east-wing'']
   \<and> m_scopes (Difference (ScopeSet_of_vector [''Default'', ''east-wing ''])
        (ScopeSet_of_vector [''East-Wing'', ''west-wing''])) = [''default'']
   \<and> set (m_scopes (ScopeSet_of_vector [''Default'', ''east-wing '']))
        \<inter> set (m_scopes (ScopeSet_of_vector [''East-Wing'', ''west-wing''])) = {''east-wing''}
   \<and> set (m_scopes (ScopeSet_of_vector [''Default'', ''east-wing '']))
        - set (m_scopes (ScopeSet_of_vector [''East-Wing'', ''west-wing''])) = {''default''}"
proof -
  let ?A = "ScopeSet_of_vector [''Default'', ''east-wing '']"
  let ?B = "ScopeSet_of_vector [''East-Wing'', ''west-wing'']"
  have a: "ScopeSet_inv ?A" by code_simp
  have b: "ScopeSet_inv ?B" by code_simp
  have i: "m_scopes (Intersection ?A ?B) = [''east-wing'']" by code_simp
  have d: "m_scopes (Difference ?A ?B) = [''default'']" by code_simp
  from Intersection_Difference_correct [OF a b] a b i d show ?thesis
    by simp
qed

section \<open>The three intersection queries\<close>

text \<open>
  C10. For scope sets \<open>A\<close> and \<open>B\<close> whose number of common tokens fits in an \<open>unsigned int\<close>:
  \<open>A.Intersects(B)\<close> is true exactly when \<open>A.IntersectionCount(B) > 0\<close>, which is exactly when
  \<open>A.Intersection(B)\<close> is not empty; and \<open>A.IntersectionCount(B)\<close> is the size of
  \<open>A.Intersection(B)\<close>.
\<close>

theorem intersection_queries_agree:
  assumes "ScopeSet_inv A" and "ScopeSet_inv B"
    and "card (set (m_scopes A) \<inter> set (m_scopes B)) < 2 ^ 32"
  shows "(Intersects A B \<longleftrightarrow> 0 < IntersectionCount A B)
    \<and> (0 < IntersectionCount A B \<longleftrightarrow> empty_ScopeSet (Intersection A B) = 0)
    \<and> (empty_ScopeSet (Intersection A B) = 0 \<longleftrightarrow> m_scopes (Intersection A B) \<noteq> [])
    \<and> IntersectionCount A B = size_ScopeSet (Intersection A B)"
proof -
  let ?zs = "set_intersection (m_scopes A) (m_scopes B)"
  from assms have sorted: "sorted_wrt (<) (m_scopes A)" "sorted_wrt (<) (m_scopes B)"
    by (simp_all add: ScopeSet_inv_def set_inv_def)
  have len: "length ?zs < 2 ^ 32"
    using assms(3) sorted by (simp add: length_set_intersection)
  have count: "IntersectionCount A B = of_nat (length ?zs)"
    by (simp add: IntersectionCount_def IntersectionCount_loop_length)
  have "unat (IntersectionCount A B) = length ?zs"
    using len by (simp add: count unat_of_nat)
  then have pos: "0 < IntersectionCount A B \<longleftrightarrow> ?zs \<noteq> []"
    by (simp add: word_less_nat_alt)
  have "Intersects A B \<longleftrightarrow> ?zs \<noteq> []"
    by (simp add: Intersects_def Intersects_loop_set_intersection)
  moreover have "empty_ScopeSet (Intersection A B) = 0 \<longleftrightarrow> ?zs \<noteq> []"
    by (simp add: Intersection_eq [OF assms(1)] empty_ScopeSet_def)
  moreover have "m_scopes (Intersection A B) = ?zs"
    by (simp add: Intersection_eq [OF assms(1)])
  moreover have "IntersectionCount A B = size_ScopeSet (Intersection A B)"
    by (simp add: count Intersection_eq [OF assms(1)] size_ScopeSet_def)
  ultimately show ?thesis
    using pos by simp
qed

theorem intersection_queries_agree_witness:
  "ScopeSet_inv (ScopeSet_of_vector [''default'', ''east-wing''])
   \<and> ScopeSet_inv (ScopeSet_of_vector [''east-wing'', ''west-wing''])
   \<and> card (set (m_scopes (ScopeSet_of_vector [''default'', ''east-wing'']))
        \<inter> set (m_scopes (ScopeSet_of_vector [''east-wing'', ''west-wing'']))) < (2::nat) ^ 32
   \<and> Intersects (ScopeSet_of_vector [''default'', ''east-wing''])
        (ScopeSet_of_vector [''east-wing'', ''west-wing''])
   \<and> IntersectionCount (ScopeSet_of_vector [''default'', ''east-wing''])
        (ScopeSet_of_vector [''east-wing'', ''west-wing'']) = 1
   \<and> size_ScopeSet (Intersection (ScopeSet_of_vector [''default'', ''east-wing''])
        (ScopeSet_of_vector [''east-wing'', ''west-wing''])) = 1
   \<and> m_scopes (Intersection (ScopeSet_of_vector [''default'', ''east-wing''])
        (ScopeSet_of_vector [''east-wing'', ''west-wing''])) \<noteq> []"
proof -
  let ?A = "ScopeSet_of_vector [''default'', ''east-wing'']"
  let ?B = "ScopeSet_of_vector [''east-wing'', ''west-wing'']"
  have a: "ScopeSet_inv ?A" by code_simp
  have b: "ScopeSet_inv ?B" by code_simp
  have ma: "m_scopes ?A = [''default'', ''east-wing'']" by code_simp
  have mb: "m_scopes ?B = [''east-wing'', ''west-wing'']" by code_simp
  have c: "card (set (m_scopes ?A) \<inter> set (m_scopes ?B)) < (2::nat) ^ 32"
    by (simp add: ma mb)
  have n: "IntersectionCount ?A ?B = 1" by code_simp
  from intersection_queries_agree [OF a b c] a b c n show ?thesis
    by auto
qed

section \<open>DifferenceUpdate\<close>

lemma DifferenceUpdate_loop_self:
  "xs \<noteq> [] \<Longrightarrow> DifferenceUpdate_loop True before xs xs difference = UndefinedBehaviour"
  by (cases xs) auto

lemma DifferenceUpdate_distinct:
  assumes "ScopeSet_inv (h this)" and "this \<noteq> other"
  shows "DifferenceUpdate h this other
    = Returns (h(this := Difference (h this) (h other)), Intersection (h this) (h other))"
proof -
  have "(h this)\<lparr>m_scopes := set_difference (m_scopes (h this)) (m_scopes (h other))\<rparr>
      = Difference (h this) (h other)"
    by (simp add: Difference_eq [OF assms(1)])
  with assms(2) show ?thesis
    by (simp add: DifferenceUpdate_def DifferenceUpdate_loop_eq Intersection_def)
qed

text \<open>
  C4. For scope sets \<open>A\<close> and \<open>B\<close> that are two objects, \<open>A.DifferenceUpdate(B)\<close> returns; it
  leaves in \<open>A\<close> exactly the tokens of the original \<open>A\<close> that are not in \<open>B\<close>, changes no other
  object, and returns exactly the tokens that are in both: no element of \<open>A\<close> is skipped
  after an erasure. The changed \<open>A\<close> is \<open>A.Difference(B)\<close> and the returned set is
  \<open>A.Intersection(B)\<close>. For \<open>A = {"x","y","z"}\<close> and \<open>B = {"y"}\<close>, \<open>A\<close> becomes \<open>{"x","z"}\<close> and
  \<open>{"y"}\<close> is returned. The call \<open>A.DifferenceUpdate(A)\<close> on a set that is not empty does not
  do what the claim says: its behaviour is undefined.
\<close>

theorem DifferenceUpdate_correct:
  assumes "ScopeSet_inv (h this)" and "ScopeSet_inv (h other)"
  shows "(this \<noteq> other \<longrightarrow>
      (\<exists>h' R. DifferenceUpdate h this other = Returns (h', R)
        \<and> set (m_scopes (h' this)) = set (m_scopes (h this)) - set (m_scopes (h other))
        \<and> set (m_scopes R) = set (m_scopes (h this)) \<inter> set (m_scopes (h other))
        \<and> (\<forall>a. a \<noteq> this \<longrightarrow> h' a = h a)
        \<and> ScopeSet_inv (h' this) \<and> ScopeSet_inv R
        \<and> h' this = Difference (h this) (h other) \<and> R = Intersection (h this) (h other)))
    \<and> (this = other \<and> m_scopes (h this) \<noteq> [] \<longrightarrow>
         DifferenceUpdate h this other = UndefinedBehaviour)
    \<and> (case DifferenceUpdate
          (\<lambda>a. if a = 0 then ScopeSet_of_vector [''x'', ''y'', ''z'']
               else ScopeSet_of_vector [''y'']) 0 1 of
          UndefinedBehaviour \<Rightarrow> False
        | Returns (h', R) \<Rightarrow> h' 0 = ScopeSet_of_vector [''x'', ''z'']
            \<and> h' 1 = ScopeSet_of_vector [''y''] \<and> R = ScopeSet_of_vector [''y''])"
proof -
  let ?D = "Difference (h this) (h other)" and ?I = "Intersection (h this) (h other)"
  from assms have sorted: "sorted_wrt (<) (m_scopes (h this))" "sorted_wrt (<) (m_scopes (h other))"
    by (simp_all add: ScopeSet_inv_def set_inv_def)
  have d: "set (m_scopes ?D) = set (m_scopes (h this)) - set (m_scopes (h other))"
    using sorted by (simp add: Difference_eq [OF assms(1)] set_set_difference)
  have i: "set (m_scopes ?I) = set (m_scopes (h this)) \<inter> set (m_scopes (h other))"
    using sorted by (simp add: Intersection_eq [OF assms(1)] set_set_intersection)
  have di: "ScopeSet_inv ?D"
    unfolding Difference_def by (rule ScopeSet_inv_of_set)
  have ii: "ScopeSet_inv ?I"
    unfolding Intersection_def by (rule ScopeSet_inv_of_set)
  have distinct: "\<exists>h' R. DifferenceUpdate h this other = Returns (h', R)
        \<and> set (m_scopes (h' this)) = set (m_scopes (h this)) - set (m_scopes (h other))
        \<and> set (m_scopes R) = set (m_scopes (h this)) \<inter> set (m_scopes (h other))
        \<and> (\<forall>a. a \<noteq> this \<longrightarrow> h' a = h a)
        \<and> ScopeSet_inv (h' this) \<and> ScopeSet_inv R
        \<and> h' this = Difference (h this) (h other) \<and> R = Intersection (h this) (h other)"
    if "this \<noteq> other"
  proof (intro exI conjI)
    show "DifferenceUpdate h this other = Returns (h(this := ?D), ?I)"
      using assms(1) that by (rule DifferenceUpdate_distinct)
  qed (simp_all add: d i di ii)
  have self: "DifferenceUpdate h this other = UndefinedBehaviour"
    if "this = other \<and> m_scopes (h this) \<noteq> []"
    using that by (auto simp: DifferenceUpdate_def DifferenceUpdate_loop_self)
  have example: "(case DifferenceUpdate
          (\<lambda>a. if a = 0 then ScopeSet_of_vector [''x'', ''y'', ''z'']
               else ScopeSet_of_vector [''y'']) 0 1 of
          UndefinedBehaviour \<Rightarrow> False
        | Returns (h', R) \<Rightarrow> h' 0 = ScopeSet_of_vector [''x'', ''z'']
            \<and> h' 1 = ScopeSet_of_vector [''y''] \<and> R = ScopeSet_of_vector [''y''])"
    by code_simp
  from distinct self example show ?thesis
    by blast
qed

theorem DifferenceUpdate_correct_witness:
  "ScopeSet_inv (ScopeSet_of_vector [''a'', ''b'', ''c'', ''d''])
   \<and> ScopeSet_inv (ScopeSet_of_vector [''b'', ''c'', ''e''])
   \<and> (0::nat) \<noteq> 1
   \<and> (case DifferenceUpdate
         (\<lambda>a. if a = 0 then ScopeSet_of_vector [''a'', ''b'', ''c'', ''d'']
              else ScopeSet_of_vector [''b'', ''c'', ''e'']) 0 1 of
         UndefinedBehaviour \<Rightarrow> False
       | Returns (h', R) \<Rightarrow> m_scopes (h' 0) = [''a'', ''d'']
           \<and> m_scopes (h' 1) = [''b'', ''c'', ''e''] \<and> m_scopes R = [''b'', ''c''])
   \<and> set (m_scopes (ScopeSet_of_vector [''a'', ''b'', ''c'', ''d'']))
        - set (m_scopes (ScopeSet_of_vector [''b'', ''c'', ''e''])) = {''a'', ''d''}
   \<and> set (m_scopes (ScopeSet_of_vector [''a'', ''b'', ''c'', ''d'']))
        \<inter> set (m_scopes (ScopeSet_of_vector [''b'', ''c'', ''e''])) = {''b'', ''c''}
   \<and> ScopeSet_inv (ScopeSet_of_vector [''x''])
   \<and> m_scopes (ScopeSet_of_vector [''x'']) \<noteq> []
   \<and> DifferenceUpdate (\<lambda>a. ScopeSet_of_vector [''x'']) 0 0 = UndefinedBehaviour"
proof -
  let ?A = "ScopeSet_of_vector [''a'', ''b'', ''c'', ''d'']"
  let ?B = "ScopeSet_of_vector [''b'', ''c'', ''e'']"
  let ?h = "\<lambda>a::nat. if a = 0 then ?A else ?B"
  let ?X = "ScopeSet_of_vector [''x'']"
  have a: "ScopeSet_inv ?A" by code_simp
  have b: "ScopeSet_inv ?B" by code_simp
  have x: "ScopeSet_inv ?X" by code_simp
  have n: "m_scopes ?X \<noteq> []" by code_simp
  have ma: "m_scopes ?A = [''a'', ''b'', ''c'', ''d'']" by code_simp
  have mb: "m_scopes ?B = [''b'', ''c'', ''e'']" by code_simp
  have r: "(case DifferenceUpdate ?h 0 1 of
         UndefinedBehaviour \<Rightarrow> False
       | Returns (h', R) \<Rightarrow> m_scopes (h' 0) = [''a'', ''d'']
           \<and> m_scopes (h' 1) = [''b'', ''c'', ''e''] \<and> m_scopes R = [''b'', ''c''])"
    by code_simp
  have "ScopeSet_inv (?h 0)" and "ScopeSet_inv (?h 1)"
    using a b by simp_all
  from DifferenceUpdate_correct [OF this]
  have "\<exists>h' R. DifferenceUpdate ?h 0 1 = Returns (h', R)"
    by auto
  moreover have "DifferenceUpdate (\<lambda>a. ?X) 0 0 = UndefinedBehaviour"
    using DifferenceUpdate_correct [of "\<lambda>a. ?X" 0 0] x n by simp
  moreover have "set (m_scopes ?A) - set (m_scopes ?B) = {''a'', ''d''}"
    by (auto simp: ma mb)
  moreover have "set (m_scopes ?A) \<inter> set (m_scopes ?B) = {''b'', ''c''}"
    by (auto simp: ma mb)
  ultimately show ?thesis
    using a b x n r by simp
qed

section \<open>Update\<close>

lemma m_scopes_Update: "m_scopes (Update A B) = set_insert_range (m_scopes B) (m_scopes A)"
  by (simp add: Update_def)

lemma set_foldl_Update:
  "set (m_scopes (foldl Update A Bs)) = set (m_scopes A) \<union> (\<Union>B\<in>set Bs. set (m_scopes B))"
  by (induction Bs arbitrary: A) (auto simp: m_scopes_Update set_set_insert_range)

lemma set_inv_foldl_Update:
  "set_inv (m_scopes A) \<Longrightarrow> set_inv (m_scopes (foldl Update A Bs))"
  by (induction Bs arbitrary: A) (auto simp: m_scopes_Update set_inv_set_insert_range)

text \<open>
  C9. After \<open>A.Update(B)\<close> the tokens of \<open>A\<close> are those of the original \<open>A\<close> and those of \<open>B\<close>,
  still without duplicates and in ascending order, and canonical when those of \<open>A\<close> and
  \<open>B\<close> are. Two \<open>Update\<close> calls can be swapped, and any sequence of \<open>Update\<close> calls gives the
  same set in every order of the calls.
\<close>

theorem Update_correct:
  assumes "set_inv (m_scopes A)"
  shows "set (m_scopes (Update A B)) = set (m_scopes A) \<union> set (m_scopes B)
    \<and> set_inv (m_scopes (Update A B))
    \<and> (ScopeSet_inv A \<and> ScopeSet_inv B \<longrightarrow> ScopeSet_inv (Update A B))
    \<and> Update (Update A B) C = Update (Update A C) B
    \<and> set (m_scopes (foldl Update A Bs))
        = set (m_scopes A) \<union> (\<Union>X\<in>set Bs. set (m_scopes X))
    \<and> (mset Bs = mset Bs' \<longrightarrow> foldl Update A Bs = foldl Update A Bs')"
proof -
  have mem: "set (m_scopes (Update A B)) = set (m_scopes A) \<union> set (m_scopes B)"
    by (auto simp: m_scopes_Update set_set_insert_range)
  have inv: "set_inv (m_scopes (Update A B))"
    using assms by (simp add: m_scopes_Update set_inv_set_insert_range)
  have canon: "ScopeSet_inv (Update A B)" if "ScopeSet_inv A \<and> ScopeSet_inv B"
    using that inv by (auto simp: ScopeSet_inv_def list_all_iff mem)
  have "m_scopes (Update (Update A B) C) = m_scopes (Update (Update A C) B)"
    by (rule set_inv_unique)
      (auto simp: m_scopes_Update set_inv_set_insert_range set_set_insert_range assms)
  then have swap: "Update (Update A B) C = Update (Update A C) B"
    by simp
  have "foldl Update A Bs = foldl Update A Bs'" if "mset Bs = mset Bs'"
  proof -
    from that have "set Bs = set Bs'" by (rule mset_eq_setD)
    then have "m_scopes (foldl Update A Bs) = m_scopes (foldl Update A Bs')"
      by (intro set_inv_unique) (auto simp: set_inv_foldl_Update assms set_foldl_Update)
    then show ?thesis by simp
  qed
  with mem inv canon swap show ?thesis
    by (simp add: set_foldl_Update)
qed

theorem Update_correct_witness:
  "set_inv (m_scopes \<lparr>m_scopes = [''b'', ''d'']\<rparr>)
   \<and> ScopeSet_inv \<lparr>m_scopes = [''b'', ''d'']\<rparr> \<and> ScopeSet_inv \<lparr>m_scopes = [''a'', ''d'']\<rparr>
   \<and> mset [\<lparr>m_scopes = [''a'', ''d'']\<rparr>, \<lparr>m_scopes = [''c'']\<rparr>]
       = mset [\<lparr>m_scopes = [''c'']\<rparr>, \<lparr>m_scopes = [''a'', ''d'']\<rparr>]
   \<and> m_scopes (Update \<lparr>m_scopes = [''b'', ''d'']\<rparr> \<lparr>m_scopes = [''a'', ''d'']\<rparr>)
       = [''a'', ''b'', ''d'']
   \<and> ScopeSet_inv (Update \<lparr>m_scopes = [''b'', ''d'']\<rparr> \<lparr>m_scopes = [''a'', ''d'']\<rparr>)
   \<and> foldl Update \<lparr>m_scopes = [''b'', ''d'']\<rparr> [\<lparr>m_scopes = [''a'', ''d'']\<rparr>, \<lparr>m_scopes = [''c'']\<rparr>]
       = \<lparr>m_scopes = [''a'', ''b'', ''c'', ''d'']\<rparr>
   \<and> foldl Update \<lparr>m_scopes = [''b'', ''d'']\<rparr> [\<lparr>m_scopes = [''c'']\<rparr>, \<lparr>m_scopes = [''a'', ''d'']\<rparr>]
       = \<lparr>m_scopes = [''a'', ''b'', ''c'', ''d'']\<rparr>"
proof -
  let ?A = "\<lparr>m_scopes = [''b'', ''d'']\<rparr>"
  let ?B = "\<lparr>m_scopes = [''a'', ''d'']\<rparr>"
  let ?C = "\<lparr>m_scopes = [''c'']\<rparr>"
  have a: "set_inv (m_scopes ?A)" by (simp add: set_inv_def)
  have ia: "ScopeSet_inv ?A" by code_simp
  have ib: "ScopeSet_inv ?B" by code_simp
  have p: "mset [?B, ?C] = mset [?C, ?B]" by simp
  have u: "m_scopes (Update ?A ?B) = [''a'', ''b'', ''d'']" by code_simp
  have f: "foldl Update ?A [?B, ?C] = \<lparr>m_scopes = [''a'', ''b'', ''c'', ''d'']\<rparr>" by code_simp
  from Update_correct [OF a, of ?B ?C "[?B, ?C]" "[?C, ?B]"] a ia ib p u f show ?thesis
    by simp
qed

section \<open>Equality\<close>

lemma m_scopes_of_vector:
  "set (m_scopes (ScopeSet_of_vector xs)) = SLPGetCanonicalString ` set xs"
  by (simp add: ScopeSet_of_vector_def set_insert_canonical)

lemma m_scopes_of_set:
  "set (m_scopes (ScopeSet_of_set xs)) = SLPGetCanonicalString ` set xs"
  by (simp add: ScopeSet_of_set_def set_insert_canonical)

text \<open>
  C7. Two scope sets are equal by \<open>operator==\<close> exactly when they hold the same tokens. A
  constructor builds the set of the canonical forms of the tokens given, so two built sets
  are equal exactly when the tokens given have the same canonical forms, whatever their
  order or repetition. The sets built from \<open>{"Lighting"}\<close> and from \<open>{" lighting "}\<close> are
  equal: both hold \<open>"lighting"\<close>.
\<close>

theorem ScopeSet_eq_membership:
  assumes "set_inv (m_scopes A)" and "set_inv (m_scopes B)"
  shows "(ScopeSet_eq A B \<longleftrightarrow> set (m_scopes A) = set (m_scopes B))
    \<and> set (m_scopes (ScopeSet_of_vector xs)) = SLPGetCanonicalString ` set xs
    \<and> set (m_scopes (ScopeSet_of_set xs)) = SLPGetCanonicalString ` set xs
    \<and> set_inv (m_scopes (ScopeSet_of_vector xs)) \<and> set_inv (m_scopes (ScopeSet_of_set xs))
    \<and> (ScopeSet_eq (ScopeSet_of_vector xs) (ScopeSet_of_vector ys) \<longleftrightarrow>
         SLPGetCanonicalString ` set xs = SLPGetCanonicalString ` set ys)
    \<and> (ScopeSet_eq (ScopeSet_of_set xs) (ScopeSet_of_set ys) \<longleftrightarrow>
         SLPGetCanonicalString ` set xs = SLPGetCanonicalString ` set ys)
    \<and> (SLPGetCanonicalString ` set xs = SLPGetCanonicalString ` set ys \<longrightarrow>
         ScopeSet_eq (ScopeSet_of_vector xs) (ScopeSet_of_vector ys))
    \<and> (mset xs = mset ys \<longrightarrow> ScopeSet_eq (ScopeSet_of_vector xs) (ScopeSet_of_vector ys))
    \<and> ScopeSet_eq (ScopeSet_of_set [''Lighting'']) (ScopeSet_of_set ['' lighting ''])
    \<and> ScopeSet_eq (ScopeSet_of_vector [''Lighting'']) (ScopeSet_of_vector ['' lighting ''])
    \<and> m_scopes (ScopeSet_of_set [''Lighting'']) = [''lighting'']
    \<and> m_scopes (ScopeSet_of_set ['' lighting '']) = [''lighting'']"
proof -
  have eq: "ScopeSet_eq A B \<longleftrightarrow> set (m_scopes A) = set (m_scopes B)"
    using assms by (auto simp: ScopeSet_eq_def intro: set_inv_unique)
  have vec: "ScopeSet_eq (ScopeSet_of_vector xs) (ScopeSet_of_vector ys) \<longleftrightarrow>
      SLPGetCanonicalString ` set xs = SLPGetCanonicalString ` set ys"
  proof
    assume "ScopeSet_eq (ScopeSet_of_vector xs) (ScopeSet_of_vector ys)"
    then have "set (m_scopes (ScopeSet_of_vector xs)) = set (m_scopes (ScopeSet_of_vector ys))"
      by (simp add: ScopeSet_eq_def)
    then show "SLPGetCanonicalString ` set xs = SLPGetCanonicalString ` set ys"
      by (simp only: m_scopes_of_vector)
  next
    assume "SLPGetCanonicalString ` set xs = SLPGetCanonicalString ` set ys"
    then show "ScopeSet_eq (ScopeSet_of_vector xs) (ScopeSet_of_vector ys)"
      unfolding ScopeSet_eq_def
      by (intro set_inv_unique)
        (simp_all add: m_scopes_of_vector ScopeSet_inv_of_vector [unfolded ScopeSet_inv_def])
  qed
  have "m_scopes (ScopeSet_of_set zs) = m_scopes (ScopeSet_of_vector zs)" for zs
    by (simp add: ScopeSet_of_set_def ScopeSet_of_vector_def)
  with vec have st: "ScopeSet_eq (ScopeSet_of_set xs) (ScopeSet_of_set ys) \<longleftrightarrow>
      SLPGetCanonicalString ` set xs = SLPGetCanonicalString ` set ys"
    by (simp add: ScopeSet_eq_def)
  have perm: "ScopeSet_eq (ScopeSet_of_vector xs) (ScopeSet_of_vector ys)" if "mset xs = mset ys"
    using vec mset_eq_setD [OF that] by simp
  have inv: "set_inv (m_scopes (ScopeSet_of_vector xs))" "set_inv (m_scopes (ScopeSet_of_set xs))"
    using ScopeSet_inv_of_vector [of xs] ScopeSet_inv_of_set [of xs]
    by (simp_all add: ScopeSet_inv_def)
  have ex1: "ScopeSet_eq (ScopeSet_of_set [''Lighting'']) (ScopeSet_of_set ['' lighting ''])"
    by code_simp
  have ex2:
    "ScopeSet_eq (ScopeSet_of_vector [''Lighting'']) (ScopeSet_of_vector ['' lighting ''])"
    by code_simp
  have ex3: "m_scopes (ScopeSet_of_set [''Lighting'']) = [''lighting'']"
    by code_simp
  have ex4: "m_scopes (ScopeSet_of_set ['' lighting '']) = [''lighting'']"
    by code_simp
  from eq vec st perm inv ex1 ex2 ex3 ex4 show ?thesis
    by (simp add: m_scopes_of_vector m_scopes_of_set)
qed

theorem ScopeSet_eq_membership_witness:
  "set_inv (m_scopes (ScopeSet_of_vector [''b'', ''A'', ''c '']))
   \<and> set_inv (m_scopes (ScopeSet_of_vector ['' C'', ''a'', ''B'', ''a'']))
   \<and> SLPGetCanonicalString ` set [''b'', ''A'', ''c '']
       = SLPGetCanonicalString ` set ['' C'', ''a'', ''B'', ''a'']
   \<and> mset [''b'', ''A'', ''c ''] = mset [''c '', ''b'', ''A'']
   \<and> ScopeSet_eq (ScopeSet_of_vector [''b'', ''A'', ''c '']) (ScopeSet_of_vector ['' C'', ''a'', ''B'', ''a''])
   \<and> ScopeSet_eq (ScopeSet_of_vector [''b'', ''A'', ''c '']) (ScopeSet_of_vector [''c '', ''b'', ''A''])
   \<and> set (m_scopes (ScopeSet_of_vector [''b'', ''A'', ''c '']))
       = set (m_scopes (ScopeSet_of_vector ['' C'', ''a'', ''B'', ''a'']))
   \<and> m_scopes (ScopeSet_of_vector [''b'', ''A'', ''c '']) = [''a'', ''b'', ''c'']
   \<and> SLPGetCanonicalString ` set [''b'', ''A'', ''c ''] \<noteq> SLPGetCanonicalString ` set [''b'', ''A'']
   \<and> \<not> ScopeSet_eq (ScopeSet_of_vector [''b'', ''A'', ''c '']) (ScopeSet_of_vector [''b'', ''A''])"
proof -
  let ?xs = "[''b'', ''A'', ''c '']"
  let ?ys = "['' C'', ''a'', ''B'', ''a'']"
  let ?zs = "[''c '', ''b'', ''A'']"
  let ?ws = "[''b'', ''A'']"
  have a: "set_inv (m_scopes (ScopeSet_of_vector ?xs))" by code_simp
  have b: "set_inv (m_scopes (ScopeSet_of_vector ?ys))" by code_simp
  have i: "SLPGetCanonicalString ` set ?xs = SLPGetCanonicalString ` set ?ys" by code_simp
  have p: "mset ?xs = mset ?zs" by (simp add: add.commute)
  have m: "m_scopes (ScopeSet_of_vector ?xs) = [''a'', ''b'', ''c'']" by code_simp
  have n: "SLPGetCanonicalString ` set ?xs \<noteq> SLPGetCanonicalString ` set ?ws" by code_simp
  from ScopeSet_eq_membership [OF a b, of ?xs ?ys] ScopeSet_eq_membership [OF a b, of ?xs ?zs]
    ScopeSet_eq_membership [OF a b, of ?xs ?ws] a b i p m n
  show ?thesis
    by blast
qed

section \<open>Contains\<close>

text \<open>
  \<open>Contains\<close> looks its argument up as it is. A set that holds \<open>"lighting"\<close> does not contain
  \<open>"Lighting"\<close>, whose canonical form it holds.
\<close>

theorem Contains_counterexample:
  "\<not> Contains (ScopeSet_of_vector [''lighting'']) ''Lighting''
   \<and> SLPGetCanonicalString ''Lighting'' \<in> set (m_scopes (ScopeSet_of_vector [''lighting'']))"
  by code_simp

text \<open>
  C2, amended. \<open>S.Contains(t)\<close> is true exactly when \<open>t\<close> itself, as it is passed, is a token
  of \<open>S\<close>. For an argument that is already canonical this is the membership of its
  canonical form.
\<close>

theorem Contains_exact:
  "(Contains S t \<longleftrightarrow> t \<in> set (m_scopes S))
   \<and> (SLPGetCanonicalString t = t \<longrightarrow>
        (Contains S t \<longleftrightarrow> SLPGetCanonicalString t \<in> set (m_scopes S)))"
  by (simp add: Contains_def set_find_def)

theorem Contains_exact_witness:
  "SLPGetCanonicalString ''lighting'' = ''lighting''
   \<and> Contains (ScopeSet_of_vector ['' Lighting'']) ''lighting''
   \<and> SLPGetCanonicalString ''lighting'' \<in> set (m_scopes (ScopeSet_of_vector ['' Lighting'']))"
proof -
  have c: "SLPGetCanonicalString ''lighting'' = ''lighting''" by code_simp
  have m: "Contains (ScopeSet_of_vector ['' Lighting'']) ''lighting''" by code_simp
  from Contains_exact [of "ScopeSet_of_vector ['' Lighting'']" "''lighting''"] c m
  show ?thesis by simp
qed

section \<open>Encoding and decoding\<close>

lemma unescape_escape_token: "unescape_token False (escape_token t) = Inr t"
  by (induction t) auto

lemma escape_token_Nil_iff: "escape_token t = [] \<longleftrightarrow> t = []"
  by (cases t) auto

lemma split_escape_token_end:
  "split_escaped False token (escape_token t) = [token @ escape_token t]"
  by (induction t arbitrary: token) auto

lemma split_escape_token_delimiter:
  "split_escaped False token (escape_token t @ delimiter # rest)
     = (token @ escape_token t) # split_escaped False [] rest"
  by (induction t arbitrary: token) auto

lemma split_join_tokens:
  "ts \<noteq> [] \<Longrightarrow>
     split_escaped False [] (join_tokens (map escape_token ts)) = map escape_token ts"
proof (induction ts rule: induct_list012)
  case 1
  then show ?case by simp
next
  case (2 t)
  then show ?case by (simp add: split_escape_token_end)
next
  case (3 t u ts)
  then show ?case by (simp add: split_escape_token_delimiter)
qed

lemma join_tokens_Nil_iff:
  "list_all (\<lambda>t. t \<noteq> []) ts \<Longrightarrow> join_tokens ts = [] \<longleftrightarrow> ts = []"
  by (induction ts rule: join_tokens.induct) auto

lemma decode_tokens_escaped:
  "list_all (\<lambda>t. SLPGetCanonicalString t = t) ts \<Longrightarrow> list_all (\<lambda>t. t \<noteq> []) ts \<Longrightarrow>
     decode_tokens (map escape_token ts) m = Inr (set_insert_range ts m)"
  by (induction ts arbitrary: m) (auto simp: unescape_escape_token)

text \<open>Decoding, with the case of the empty text written out.\<close>

lemma ScopeSet_of_string_unfold:
  "ScopeSet_of_string scopes =
     (if scopes = [] then Inr ScopeSet_empty
      else (case decode_tokens (split_escaped False [] scopes) [] of
              Inl e \<Rightarrow> Inl e
            | Inr m \<Rightarrow> Inr \<lparr>m_scopes = m\<rparr>))"
  by (simp add: ScopeSet_of_string_def raw_tokens_def ScopeSet_empty_def)

text \<open>
  C5. For every valid scope set \<open>S\<close>, also one whose tokens hold commas or backslashes,
  decoding the encoded string of \<open>S\<close> succeeds and gives \<open>S\<close> back.
\<close>

theorem Decode_Encode_roundtrip:
  assumes "valid_ScopeSet S"
  shows "ScopeSet_of_string (AsEscapedString S) = Inr S"
proof (cases "m_scopes S = []")
  case True
  then have "S = ScopeSet_empty" by (simp add: ScopeSet_empty_def)
  with True show ?thesis
    by (simp add: ScopeSet_of_string_def raw_tokens_def AsEscapedString_def)
next
  case False
  from assms have canon: "list_all (\<lambda>t. SLPGetCanonicalString t = t) (m_scopes S)"
    and nonempty: "list_all (\<lambda>t. t \<noteq> []) (m_scopes S)"
    and inv: "set_inv (m_scopes S)"
    by (simp_all add: valid_ScopeSet_def ScopeSet_inv_def)
  from nonempty have "list_all (\<lambda>t. t \<noteq> []) (map escape_token (m_scopes S))"
    by (simp add: list_all_iff escape_token_Nil_iff)
  with False have nonnil: "AsEscapedString S \<noteq> []"
    by (simp add: AsEscapedString_def join_tokens_Nil_iff)
  have "decode_tokens (split_escaped False [] (AsEscapedString S)) [] = Inr (m_scopes S)"
    using False canon nonempty inv
    by (simp add: AsEscapedString_def split_join_tokens decode_tokens_escaped
        set_insert_range_id)
  with nonnil show ?thesis
    by (simp add: ScopeSet_of_string_def raw_tokens_def)
qed

theorem Decode_Encode_roundtrip_witness:
  "valid_ScopeSet \<lparr>m_scopes = [''a,b'', ''c'', [CHR ''d'', escape_character, CHR ''e'']]\<rparr>
   \<and> AsEscapedString \<lparr>m_scopes = [''a,b'', ''c'', [CHR ''d'', escape_character, CHR ''e'']]\<rparr>
       = [CHR ''a'', escape_character, delimiter, CHR ''b'', delimiter, CHR ''c'', delimiter,
          CHR ''d'', escape_character, escape_character, CHR ''e'']
   \<and> ScopeSet_of_string
        [CHR ''a'', escape_character, delimiter, CHR ''b'', delimiter, CHR ''c'', delimiter,
          CHR ''d'', escape_character, escape_character, CHR ''e'']
       = Inr \<lparr>m_scopes = [''a,b'', ''c'', [CHR ''d'', escape_character, CHR ''e'']]\<rparr>"
proof -
  let ?S = "\<lparr>m_scopes = [''a,b'', ''c'', [CHR ''d'', escape_character, CHR ''e'']]\<rparr>"
  have v: "valid_ScopeSet ?S" by code_simp
  have e: "AsEscapedString ?S
       = [CHR ''a'', escape_character, delimiter, CHR ''b'', delimiter, CHR ''c'', delimiter,
          CHR ''d'', escape_character, escape_character, CHR ''e'']"
    by code_simp
  from Decode_Encode_roundtrip [OF v] v e show ?thesis
    by simp
qed

section \<open>Tokens with an empty canonical form\<close>









end
